theory Spec2Isabelle
  imports Complex_Main "HOL-Library.Word" "HOL-Library.List_Lexorder" "HOL-Library.Multiset"
begin

section \<open>BIP-48 multisig address derivation (src/index.ts)\<close>

text \<open>
  The module builds native SegWit P2WSH multisig addresses and descriptors from
  account-level extended public keys. Its own code is the prefix tables, the key
  normaliser, the address builder and the range deriver. Everything cryptographic is
  delegated to libraries (bs58check, bip32, bitcoinjs-lib payments): those calls are
  parameters of the model, collected in the record \<open>ext\<close>, and every theorem below
  holds for every implementation of them unless it names a contract it relies on.

  Conventions of the embedding:
  \<^item> a \<open>throw\<close> is the left injection of a sum, one constructor of \<open>error\<close> per
    message of the source, and one per library that can throw;
  \<^item> a JavaScript \<open>number\<close> that the module does not validate is a \<open>real\<close>: the
    threshold \<open>m\<close>, on which the source tests \<open>Number.isInteger\<close>, the \<open>count\<close> that
    bounds the loop of the range deriver, and the \<open>account\<close> that is printed into the
    path. \<open>NaN\<close> and the infinities are not represented; they fail
    \<open>Number.isInteger\<close> as every other non-integer does. An index (\<open>index\<close>,
    \<open>start\<close>) is an \<open>int\<close>: it goes to the BIP32 derivation, which accepts integers
    below \<open>2^32\<close> only, and the \<open>int\<close> is the \<open>number\<close> as long as its magnitude is
    below \<open>2^53\<close>. The value of an enum is an \<open>int\<close>;
  \<^item> a \<open>Buffer\<close> is a list of bytes; a string is a \<open>char list\<close>. The prefix test
    compares the first four characters with ASCII names, for which UTF-16 code units
    and bytes coincide;
  \<^item> \<open>console.warn\<close> in the strict block writes to the console only; it neither
    changes the returned value nor the control flow and is not part of the model.
\<close>

subsection \<open>Data\<close>

type_synonym byte = "8 word"
type_synonym Buffer = "byte list"

text \<open>\<open>type Net = 'mainnet' | 'testnet' | 'signet'\<close>\<close>

datatype Net = mainnet | testnet | signet

text \<open>The \<open>Network\<close> object of bitcoinjs-lib (the nested \<open>bip32\<close> object is flattened).\<close>

record Network =
  messagePrefix :: string
  bech32 :: string
  bip32_public :: "32 word"
  bip32_private :: "32 word"
  pubKeyHash :: byte
  scriptHash :: byte
  wif :: byte

definition signetNetwork :: Network where
  "signetNetwork =
     \<lparr>messagePrefix = CHR 0x18 # ''Bitcoin Signed Message:'' @ [CHR 0x0A],
      bech32 = ''tb'',
      bip32_public = 0x043587cf, bip32_private = 0x04358394,
      pubKeyHash = 0x6f,
      scriptHash = 0xc4,
      wif = 0xef\<rparr>"

datatype CoinType = Mainnet | Testnet

fun CoinType_value :: "CoinType \<Rightarrow> int" where
  "CoinType_value Mainnet = 0"
| "CoinType_value Testnet = 1"

datatype ScriptType = P2WSH_P2SH | P2WSH

fun ScriptType_value :: "ScriptType \<Rightarrow> int" where
  "ScriptType_value P2WSH_P2SH = 1"
| "ScriptType_value P2WSH = 2"

datatype ChangeChain = External | Internal

fun ChangeChain_value :: "ChangeChain \<Rightarrow> int" where
  "ChangeChain_value External = 0"
| "ChangeChain_value Internal = 1"

text \<open>
  The \<open>Payment\<close> object of bitcoinjs-lib, with the three properties the builder
  reads: \<open>address\<close>, \<open>output\<close> (here \<open>output_buf\<close>) and \<open>redeem\<close>.
\<close>

datatype Payment =
  Payment (address: "string option") (output_buf: "Buffer option") (redeem: "Payment option")

text \<open>
  \<open>MultisigRequest\<close> and \<open>DeriveParams\<close> share the fields that
  \<open>deriveBip48Addresses\<close> collects with \<open>...base\<close> and spreads into each request;
  they are the record \<open>Base\<close>, which both extend. An optional field is an \<open>option\<close>.
\<close>

record Base =
  m :: real
  xpubs :: "string list"
  change :: ChangeChain
  network :: "Net option"
  strictBip48 :: "bool option"

record MultisigRequest = Base +
  index :: int

record DeriveParams = Base +
  start :: int
  count :: real
  account :: "real option"
  scriptType :: "ScriptType option"
  coinType :: "CoinType option"

record MultisigResult =
  address :: string
  witnessScriptHex :: string
  redeemScriptHex :: "string option"
  descriptorTemplate :: string
  descriptorConcret :: string

record DerivedResult = MultisigResult +
  index :: int
  path :: string

text \<open>The object returned by \<open>normalizeToNeutralPub\<close>.\<close>

record NeutralPub =
  neutral :: string
  network :: Net

datatype error =
    Invalid_threshold_m
  | Too_many_cosigners
  | Unknown_extended_key_prefix
  | Extended_key_too_short
  | Mixed_networks_in_keys
  | Failed_to_build_P2WSH_address
  | TypeError_undefined
  | Bs58check_error
  | Bip32_error
  | Payments_error

text \<open>
  The first six constructors are the six \<open>throw new Error(...)\<close> of the source, named
  after their messages. \<open>TypeError_undefined\<close> is what reading \<open>.network\<close> of
  \<open>normalized[0]\<close> raises when the array is empty. The last three stand for an exception
  thrown inside \<open>bs58check.decode\<close>, inside \<open>bip32.fromBase58\<close> or \<open>derive\<close>, and
  inside \<open>payments.p2ms\<close> or \<open>payments.p2wsh\<close>.

  In the specification's taxonomy \<open>Invalid_threshold_m\<close> is InvalidThreshold,
  \<open>Too_many_cosigners\<close> is TooManyCosigners, \<open>Unknown_extended_key_prefix\<close> is
  UnknownPrefix, \<open>Mixed_networks_in_keys\<close> is MixedNetworks,
  \<open>Failed_to_build_P2WSH_address\<close> is ScriptConstructionFailure, and MalformedKey
  covers \<open>Bs58check_error\<close> (invalid check-encoding) and \<open>Extended_key_too_short\<close>.
\<close>

subsection \<open>The library calls\<close>

text \<open>
  The parameters of the model. \<open>None\<close> is a thrown exception. \<open>'n\<close> is the type of
  BIP32 nodes. \<open>networks_bitcoin\<close> and \<open>networks_testnet\<close> are the constants
  \<open>networks.bitcoin\<close> and \<open>networks.testnet\<close> of bitcoinjs-lib. The last field is not
  a library call but a part of the language that the model does not compute: the text
  that \<open>Number::toString\<close> gives a number which is not an integer of magnitude below
  \<open>2^53\<close> (fraction digits, exponent notation such as \<open>1e+21\<close>, \<open>NaN\<close>, \<open>Infinity\<close>).
\<close>

record 'n ext =
  bs58check_decode :: "string \<Rightarrow> Buffer option"
  bs58check_encode :: "Buffer \<Rightarrow> string"
  bip32_fromBase58 :: "string \<Rightarrow> Network \<Rightarrow> 'n option"
  node_derive :: "'n \<Rightarrow> int \<Rightarrow> 'n option"
  node_publicKey :: "'n \<Rightarrow> Buffer"
  payments_p2ms :: "real \<Rightarrow> Buffer list \<Rightarrow> Network \<Rightarrow> Payment option"
  payments_p2wsh :: "Payment \<Rightarrow> Network \<Rightarrow> Payment option"
  networks_bitcoin :: Network
  networks_testnet :: Network
  Number_toString_other :: "real \<Rightarrow> string"

subsection \<open>Built-ins of the language\<close>

text \<open>\<open>Number.isInteger\<close>\<close>

definition Number_isInteger :: "real \<Rightarrow> bool" where
  "Number_isInteger x = (of_int \<lfloor>x\<rfloor> = x)"

text \<open>
  The decimal text a template literal gives an integer (\<open>`${index}`\<close>), for integers
  that a \<open>number\<close> holds exactly and prints without an exponent.
\<close>

definition digitChar :: "nat \<Rightarrow> char" where
  "digitChar d = ''0123456789abcdef'' ! d"

function natToString :: "nat \<Rightarrow> string" where
  "natToString n = (if n < 10 then [digitChar n] else natToString (n div 10) @ [digitChar (n mod 10)])"
  by pat_completeness auto
termination
  by (relation "measure id") auto

definition Number_toString :: "int \<Rightarrow> string" where
  "Number_toString i = (if i < 0 then ''-'' @ natToString (nat (- i)) else natToString (nat i))"

text \<open>
  The text a template literal gives a number that was not validated
  (\<open>`${account}`\<close>): the decimal digits when the number is an integer of magnitude up
  to \<open>Number.MAX_SAFE_INTEGER = 2^53 - 1\<close>, and what the language prints otherwise.
\<close>

definition Number_text :: "'n ext \<Rightarrow> real \<Rightarrow> string" where
  "Number_text E x =
     (if Number_isInteger x \<and> \<bar>x\<bar> \<le> 9007199254740991 then Number_toString \<lfloor>x\<rfloor>
      else Number_toString_other E x)"

text \<open>\<open>Array.prototype.join\<close>\<close>

fun join :: "string \<Rightarrow> string list \<Rightarrow> string" where
  "join sep [] = []"
| "join sep [x] = x"
| "join sep (x # y # ys) = x @ sep @ join sep (y # ys)"

text \<open>\<open>Array.prototype.map\<close> with a callback that may throw: the first exception leaves the loop.\<close>

fun map_throw :: "('a \<Rightarrow> error + 'b) \<Rightarrow> 'a list \<Rightarrow> error + 'b list" where
  "map_throw f [] = Inr []"
| "map_throw f (x # xs) =
     (case f x of
        Inl e \<Rightarrow> Inl e
      | Inr y \<Rightarrow> (case map_throw f xs of Inl e \<Rightarrow> Inl e | Inr ys \<Rightarrow> Inr (y # ys)))"

text \<open>
  \<open>Buffer.compare\<close>: bytes compared as unsigned values from the left, a proper prefix
  before the longer buffer; the result is -1, 0 or 1.
\<close>

fun Buffer_compare :: "Buffer \<Rightarrow> Buffer \<Rightarrow> int" where
  "Buffer_compare [] [] = 0"
| "Buffer_compare [] (y # ys) = - 1"
| "Buffer_compare (x # xs) [] = 1"
| "Buffer_compare (x # xs) (y # ys) =
     (if x < y then - 1 else if y < x then 1 else Buffer_compare xs ys)"

text \<open>
  \<open>Array.prototype.sort\<close> with a comparator: a stable sort, here by insertion. An
  element goes before the first one that the comparator does not put before it.
\<close>

fun insert_sorted :: "('a \<Rightarrow> 'a \<Rightarrow> int) \<Rightarrow> 'a \<Rightarrow> 'a list \<Rightarrow> 'a list" where
  "insert_sorted cmp x [] = [x]"
| "insert_sorted cmp x (y # ys) =
     (if cmp x y \<le> 0 then x # y # ys else y # insert_sorted cmp x ys)"

definition Array_sort :: "('a \<Rightarrow> 'a \<Rightarrow> int) \<Rightarrow> 'a list \<Rightarrow> 'a list" where
  "Array_sort cmp xs = foldr (insert_sorted cmp) xs []"

text \<open>\<open>buf.toString('hex')\<close>\<close>

definition toHex :: "Buffer \<Rightarrow> string" where
  "toHex buf = concat (map (\<lambda>b. [digitChar (unat b div 16), digitChar (unat b mod 16)]) buf)"

text \<open>
  \<open>buf.writeUInt32BE(value, offset)\<close>. Node raises a RangeError when fewer than four
  bytes follow the offset; the only call is behind the guard \<open>data.length < 4\<close>.
\<close>

definition writeUInt32BE :: "Buffer \<Rightarrow> 32 word \<Rightarrow> nat \<Rightarrow> Buffer" where
  "writeUInt32BE buf v off =
     buf[off := ucast (drop_bit 24 v),
         off + 1 := ucast (drop_bit 16 v),
         off + 2 := ucast (drop_bit 8 v),
         off + 3 := ucast v]"

subsection \<open>SLIP-132 version tables and the key normaliser\<close>

definition VERSIONS_mainnet :: "(string \<times> 32 word) list" where
  "VERSIONS_mainnet =
     [(''xpub'', 0x0488b21e),
      (''ypub'', 0x049d7cb2),
      (''zpub'', 0x04b24746),
      (''Ypub'', 0x0295b43f),
      (''Zpub'', 0x02aa7ed3)]"

definition VERSIONS_testnet :: "(string \<times> 32 word) list" where
  "VERSIONS_testnet =
     [(''tpub'', 0x043587cf),
      (''upub'', 0x044a5262),
      (''vpub'', 0x045f1cf6),
      (''Upub'', 0x024289ef),
      (''Vpub'', 0x02575483)]"

definition isMainnetPrefix :: "string \<Rightarrow> bool" where
  "isMainnetPrefix p = (p \<in> set (map fst VERSIONS_mainnet))"

definition isTestnetPrefix :: "string \<Rightarrow> bool" where
  "isTestnetPrefix p = (p \<in> set (map fst VERSIONS_testnet))"

definition detectPrefix :: "string \<Rightarrow> string option" where
  "detectPrefix key =
     (let p = take 4 key in
      if isMainnetPrefix p \<or> isTestnetPrefix p then Some p else None)"

definition prefixNetwork :: "string \<Rightarrow> Net" where
  "prefixNetwork prefix = (if isMainnetPrefix prefix then mainnet else testnet)"

definition replaceVersion :: "'n ext \<Rightarrow> string \<Rightarrow> 32 word \<Rightarrow> error + string" where
  "replaceVersion E extKey toVersion =
     (case bs58check_decode E extKey of
        None \<Rightarrow> Inl Bs58check_error
      | Some data \<Rightarrow>
          if length data < 4 then Inl Extended_key_too_short
          else Inr (bs58check_encode E (writeUInt32BE data toVersion 0)))"

definition normalizeToNeutralPub :: "'n ext \<Rightarrow> string \<Rightarrow> error + NeutralPub" where
  "normalizeToNeutralPub E extKey =
     (case detectPrefix extKey of
        None \<Rightarrow> Inl Unknown_extended_key_prefix
      | Some pref \<Rightarrow>
          let net = prefixNetwork pref;
              neutralVersion =
                (if net = mainnet then the (map_of VERSIONS_mainnet ''xpub'')
                 else the (map_of VERSIONS_testnet ''tpub''));
              alreadyNeutral =
                ((net = mainnet \<and> pref = ''xpub'') \<or> (net = testnet \<and> pref = ''tpub''))
          in if alreadyNeutral then Inr \<lparr>neutral = extKey, network = net\<rparr>
             else (case replaceVersion E extKey neutralVersion of
                     Inl e \<Rightarrow> Inl e
                   | Inr s \<Rightarrow> Inr \<lparr>neutral = s, network = net\<rparr>))"

subsection \<open>Single address builder\<close>

text \<open>
  The callback of the second \<open>normalized.map\<close>: parse the neutral key for the chosen
  network, derive the child at \<open>change\<close> and then at \<open>index\<close>, return its public key.
\<close>

definition childPubkey :: "'n ext \<Rightarrow> Network \<Rightarrow> ChangeChain \<Rightarrow> int \<Rightarrow> NeutralPub \<Rightarrow> error + Buffer" where
  "childPubkey E net chg idx n =
     (case bip32_fromBase58 E (neutral n) net of
        None \<Rightarrow> Inl Bip32_error
      | Some node \<Rightarrow>
          (case node_derive E node (ChangeChain_value chg) of
             None \<Rightarrow> Inl Bip32_error
           | Some c1 \<Rightarrow>
               (case node_derive E c1 idx of
                  None \<Rightarrow> Inl Bip32_error
                | Some child \<Rightarrow> Inr (node_publicKey E child))))"

text \<open>
  The template literal of both descriptors,
  \<open>`wsh(sortedmulti(${m},${keys.join(',')}))`\<close>. It is evaluated after the threshold
  check, so \<open>m\<close> is an integer between 1 and 15 there.
\<close>

definition descriptor :: "real \<Rightarrow> string list \<Rightarrow> string" where
  "descriptor mm keys =
     ''wsh(sortedmulti('' @ Number_toString \<lfloor>mm\<rfloor> @ '','' @ join '','' keys @ ''))''"

definition buildBip48P2wshAddress :: "'n ext \<Rightarrow> MultisigRequest \<Rightarrow> error + MultisigResult" where
  "buildBip48P2wshAddress E req =
     (if \<not> Number_isInteger (m req) \<or> m req < 1 \<or> m req > real (length (xpubs req))
      then Inl Invalid_threshold_m
      else if length (xpubs req) > 15 then Inl Too_many_cosigners
      else
        (case map_throw (normalizeToNeutralPub E) (xpubs req) of
           Inl e \<Rightarrow> Inl e
         | Inr normalized \<Rightarrow>
             (case normalized of
                [] \<Rightarrow> Inl TypeError_undefined
              | n0 # _ \<Rightarrow>
                  let detectedNet = NeutralPub.network n0 in
                  if list_ex (\<lambda>n. NeutralPub.network n \<noteq> detectedNet) normalized
                  then Inl Mixed_networks_in_keys
                  else
                    let chosenNet = (case Base.network req of Some c \<Rightarrow> c | None \<Rightarrow> detectedNet);
                        net = (if chosenNet = mainnet then networks_bitcoin E
                               else if chosenNet = signet then signetNetwork
                               else networks_testnet E)
                    in
                    (case map_throw (childPubkey E net (change req) (MultisigRequest.index req)) normalized of
                       Inl e \<Rightarrow> Inl e
                     | Inr childPubkeys \<Rightarrow>
                         let sortedPubkeys = Array_sort Buffer_compare childPubkeys in
                         (case payments_p2ms E (m req) sortedPubkeys net of
                            None \<Rightarrow> Inl Payments_error
                          | Some p2ms \<Rightarrow>
                              (case payments_p2wsh E p2ms net of
                                 None \<Rightarrow> Inl Payments_error
                               | Some p2wsh \<Rightarrow>
                                   (case (Payment.address p2wsh, Option.bind (Payment.redeem p2wsh) Payment.output_buf) of
                                      (Some addr, Some out) \<Rightarrow>
                                        if addr = [] then Inl Failed_to_build_P2WSH_address
                                        else
                                          let templateKeys = map (\<lambda>n. neutral n @ ''/0/*'') normalized;
                                              concretKeys =
                                                map (\<lambda>n. neutral n @ ''/''
                                                       @ Number_toString (ChangeChain_value (change req)) @ ''/''
                                                       @ Number_toString (MultisigRequest.index req)) normalized
                                          in Inr \<lparr>address = addr,
                                                  witnessScriptHex = toHex out,
                                                  redeemScriptHex = None,
                                                  descriptorTemplate = descriptor (m req) templateKeys,
                                                  descriptorConcret = descriptor (m req) concretKeys\<rparr>
                                    | _ \<Rightarrow> Inl Failed_to_build_P2WSH_address)))))))"

subsection \<open>Bulk derivation\<close>

text \<open>
  The \<open>for\<close> loop of \<open>deriveBip48Addresses\<close>, with the loop variable and the array
  \<open>results\<close> as arguments. The loop variable counts 0, 1, 2, ... and is compared with
  \<open>count\<close>, which need not be an integer. An exception of the builder leaves the loop
  and the function.
\<close>

definition pathString :: "'n ext \<Rightarrow> DeriveParams \<Rightarrow> int \<Rightarrow> string" where
  "pathString E params idx =
     ''m/48'' @ [CHR 0x27] @ ''/''
       @ Number_toString (CoinType_value (case coinType params of Some c \<Rightarrow> c | None \<Rightarrow> Testnet))
       @ [CHR 0x27] @ ''/''
       @ Number_text E (case account params of Some a \<Rightarrow> a | None \<Rightarrow> 0)
       @ [CHR 0x27] @ ''/''
       @ Number_toString (ScriptType_value (case scriptType params of Some s \<Rightarrow> s | None \<Rightarrow> P2WSH))
       @ [CHR 0x27] @ ''/''
       @ Number_toString (ChangeChain_value (change params)) @ ''/''
       @ Number_toString idx"

definition request :: "DeriveParams \<Rightarrow> int \<Rightarrow> MultisigRequest" where
  "request params idx = Base.extend (Base.truncate params) \<lparr>MultisigRequest.index = idx\<rparr>"

function derive_loop :: "'n ext \<Rightarrow> DeriveParams \<Rightarrow> int \<Rightarrow> DerivedResult list \<Rightarrow> error + DerivedResult list" where
  "derive_loop E params i results =
     (if of_int i < DeriveParams.count params then
        (let idx = start params + i in
         case buildBip48P2wshAddress E (request params idx) of
           Inl e \<Rightarrow> Inl e
         | Inr res \<Rightarrow>
             derive_loop E params (i + 1)
               (results @ [MultisigResult.extend res
                             \<lparr>DerivedResult.index = idx, path = pathString E params idx\<rparr>]))
      else Inr results)"
  by pat_completeness auto
termination
  by (relation "measure (\<lambda>(E, params, i, results). nat (\<lceil>DeriveParams.count params\<rceil> - i))")
     (auto simp: less_ceiling_iff)

declare derive_loop.simps [simp del]

definition deriveBip48Addresses :: "'n ext \<Rightarrow> DeriveParams \<Rightarrow> error + DerivedResult list" where
  "deriveBip48Addresses E params = derive_loop E params 0 []"

subsection \<open>Named parts of the builder\<close>

text \<open>
  Expressions of the source, named so that lemmas can speak of them. First three of
  \<open>buildBip48P2wshAddress\<close>: the \<open>Network\<close> chosen from the override and the
  detected network, the suffix of a concrete descriptor key, and the statements after
  \<open>payments.p2wsh\<close>.
\<close>

definition resolveNetwork :: "'n ext \<Rightarrow> Net option \<Rightarrow> Net \<Rightarrow> Network" where
  "resolveNetwork E ov detectedNet =
     (let chosenNet = (case ov of Some c \<Rightarrow> c | None \<Rightarrow> detectedNet)
      in if chosenNet = mainnet then networks_bitcoin E
         else if chosenNet = signet then signetNetwork
         else networks_testnet E)"

definition concretSuffix :: "ChangeChain \<Rightarrow> int \<Rightarrow> string" where
  "concretSuffix chg idx =
     ''/'' @ Number_toString (ChangeChain_value chg) @ ''/'' @ Number_toString idx"

definition finish :: "'n ext \<Rightarrow> MultisigRequest \<Rightarrow> NeutralPub list \<Rightarrow> Payment option \<Rightarrow> error + MultisigResult" where
  "finish E req ns p2 =
     (case p2 of
        None \<Rightarrow> Inl Payments_error
      | Some p2wsh \<Rightarrow>
          (case (Payment.address p2wsh, Option.bind (Payment.redeem p2wsh) Payment.output_buf) of
             (Some addr, Some out) \<Rightarrow>
               if addr = [] then Inl Failed_to_build_P2WSH_address
               else Inr \<lparr>address = addr, witnessScriptHex = toHex out, redeemScriptHex = None,
                         descriptorTemplate = descriptor (m req) (map (\<lambda>n. neutral n @ ''/0/*'') ns),
                         descriptorConcret =
                           descriptor (m req)
                             (map (\<lambda>n. neutral n @ concretSuffix (change req) (MultisigRequest.index req)) ns)\<rparr>
           | _ \<Rightarrow> Inl Failed_to_build_P2WSH_address))"

text \<open>The branch of \<open>normalizeToNeutralPub\<close> that rewrites the version.\<close>

definition rewritten :: "'n ext \<Rightarrow> string \<Rightarrow> 32 word \<Rightarrow> Net \<Rightarrow> error + NeutralPub" where
  "rewritten E k v net =
     (case replaceVersion E k v of
        Inl e \<Rightarrow> Inl e
      | Inr s \<Rightarrow> Inr \<lparr>neutral = s, network = net\<rparr>)"

text \<open>One round of the loop of \<open>deriveBip48Addresses\<close>, for the loop variable \<open>i\<close>.\<close>

definition derive_one :: "'n ext \<Rightarrow> DeriveParams \<Rightarrow> int \<Rightarrow> error + DerivedResult" where
  "derive_one E params i =
     (case buildBip48P2wshAddress E (request params (start params + i)) of
        Inl e \<Rightarrow> Inl e
      | Inr res \<Rightarrow>
          Inr (MultisigResult.extend res
                 \<lparr>DerivedResult.index = start params + i,
                  path = pathString E params (start params + i)\<rparr>))"

text \<open>The fields of a derived result other than its path.\<close>

definition outputs :: "DerivedResult \<Rightarrow> string \<times> string \<times> string option \<times> string \<times> string \<times> int" where
  "outputs r =
     (address r, witnessScriptHex r, redeemScriptHex r, descriptorTemplate r,
      descriptorConcret r, DerivedResult.index r)"

subsection \<open>The specification's vocabulary\<close>

text \<open>
  The serialisation of an extended public key, as the specification's data model lays
  it out: 4 bytes of version, 1 of depth, 4 of parent fingerprint, 4 of child number,
  32 of chain code and 33 of compressed public key, 78 bytes in all before the
  checksum. These are the specification's words, not code of the module.
\<close>

definition key_depth :: "Buffer \<Rightarrow> Buffer" where
  "key_depth d = take 1 (drop 4 d)"

definition key_parentFingerprint :: "Buffer \<Rightarrow> Buffer" where
  "key_parentFingerprint d = take 4 (drop 5 d)"

definition key_childNumber :: "Buffer \<Rightarrow> Buffer" where
  "key_childNumber d = take 4 (drop 9 d)"

definition key_chainCode :: "Buffer \<Rightarrow> Buffer" where
  "key_chainCode d = take 32 (drop 13 d)"

definition key_publicKey :: "Buffer \<Rightarrow> Buffer" where
  "key_publicKey d = take 33 (drop 45 d)"

text \<open>
  A valid extended public key: its check-encoding decodes to a payload of 78 bytes and
  its text starts with one of the ten known prefixes.
\<close>

definition validExtendedPublicKey :: "'n ext \<Rightarrow> string \<Rightarrow> bool" where
  "validExtendedPublicKey E k =
     (case bs58check_decode E k of
        None \<Rightarrow> False
      | Some d \<Rightarrow> length d = 78 \<and> detectPrefix k \<noteq> None)"


text \<open>
  The descriptor text format of the specification,
  \<open>wsh(sortedmulti(<m>,<key1><suffix>,<key2><suffix>,...))\<close>: every key is preceded by
  a comma and followed by the suffix.
\<close>

definition spec_descriptor :: "int \<Rightarrow> string list \<Rightarrow> string \<Rightarrow> string" where
  "spec_descriptor k keys suffix =
     ''wsh(sortedmulti('' @ Number_toString k
        @ concat (map (\<lambda>key. '','' @ key @ suffix) keys) @ ''))''"



subsection \<open>An executable instance of the library interface\<close>

text \<open>
  To run the definitions on concrete requests, the library parameters need values.
  \<open>demo\<close> is a small stand-in: keys are written as a SLIP-132 prefix followed by the
  payload after the version field in hexadecimal, a node is that payload followed by
  the path, the multisig script has the layout of a real one, and an
  address is the human-readable part followed by the script in hexadecimal. It is not
  the real cryptography; it serves to instantiate the theorems, which hold for every
  value of the parameters.
\<close>

definition fromHexDigit :: "char \<Rightarrow> nat option" where
  "fromHexDigit c = map_of (zip ''0123456789abcdef'' [0..<16]) c"

fun fromHex :: "string \<Rightarrow> Buffer option" where
  "fromHex [] = Some []"
| "fromHex [c] = None"
| "fromHex (a # b # cs) =
     (case (fromHexDigit a, fromHexDigit b, fromHex cs) of
        (Some h, Some l, Some bs) \<Rightarrow> Some (word_of_nat (16 * h + l) # bs)
      | _ \<Rightarrow> None)"

definition be32 :: "32 word \<Rightarrow> Buffer" where
  "be32 v = writeUInt32BE [0, 0, 0, 0] v 0"

definition demo_encode :: "Buffer \<Rightarrow> string" where
  "demo_encode d =
     (case map_of (map (\<lambda>(name, v). (be32 v, name)) (VERSIONS_mainnet @ VERSIONS_testnet)) (take 4 d) of
        Some name \<Rightarrow> name @ toHex (drop 4 d)
      | None \<Rightarrow> ''#'' @ toHex d)"

definition demo_decode :: "string \<Rightarrow> Buffer option" where
  "demo_decode s =
     (if take 1 s = ''#'' then fromHex (drop 1 s)
      else (case map_of (VERSIONS_mainnet @ VERSIONS_testnet) (take 4 s) of
              None \<Rightarrow> None
            | Some v \<Rightarrow> map_option (\<lambda>body. be32 v @ body) (fromHex (drop 4 s))))"

definition demo_fromBase58 :: "string \<Rightarrow> Network \<Rightarrow> Buffer option" where
  "demo_fromBase58 s net =
     (case demo_decode s of
        None \<Rightarrow> None
      | Some d \<Rightarrow>
          if 4 < length d \<and> take 4 d = be32 (bip32_public net) then Some (drop 4 d)
          else None)"

definition demo_derive :: "Buffer \<Rightarrow> int \<Rightarrow> Buffer option" where
  "demo_derive node i = (if 0 \<le> i \<and> i < 2 ^ 31 then Some (node @ be32 (word_of_int i)) else None)"

definition demo_p2ms :: "real \<Rightarrow> Buffer list \<Rightarrow> Network \<Rightarrow> Payment option" where
  "demo_p2ms k pubkeys net =
     (if Number_isInteger k \<and> 1 \<le> k \<and> k \<le> real (length pubkeys) \<and> length pubkeys \<le> 16
      then Some (Payment None
                   (Some ([0x50 + word_of_int \<lfloor>k\<rfloor>]
                          @ concat (map (\<lambda>key. word_of_nat (length key) # key) pubkeys)
                          @ [0x50 + word_of_nat (length pubkeys), 0xae]))
                   None)
      else None)"

definition demo_p2wsh :: "Payment \<Rightarrow> Network \<Rightarrow> Payment option" where
  "demo_p2wsh p net =
     (case Payment.output_buf p of
        None \<Rightarrow> None
      | Some out \<Rightarrow> Some (Payment (Some (bech32 net @ ''1'' @ toHex out)) None (Some p)))"

definition demo :: "Buffer ext" where
  "demo =
     \<lparr>bs58check_decode = demo_decode,
      bs58check_encode = demo_encode,
      bip32_fromBase58 = demo_fromBase58,
      node_derive = demo_derive,
      node_publicKey = (\<lambda>node. node),
      payments_p2ms = demo_p2ms,
      payments_p2wsh = demo_p2wsh,
      networks_bitcoin =
        \<lparr>messagePrefix = CHR 0x18 # ''Bitcoin Signed Message:'' @ [CHR 0x0A], bech32 = ''bc'',
         bip32_public = 0x0488b21e, bip32_private = 0x0488ade4,
         pubKeyHash = 0x00, scriptHash = 0x05, wif = 0x80\<rparr>,
      networks_testnet =
        \<lparr>messagePrefix = CHR 0x18 # ''Bitcoin Signed Message:'' @ [CHR 0x0A], bech32 = ''tb'',
         bip32_public = 0x043587cf, bip32_private = 0x04358394,
         pubKeyHash = 0x6f, scriptHash = 0xc4, wif = 0xef\<rparr>,
      Number_toString_other = (\<lambda>x. ''NaN'')\<rparr>"

text \<open>
  Demo keys: a prefix and a payload of one byte after the version, or of the 74 bytes
  that a serialised extended key has there.
\<close>

definition demoKey :: "string \<Rightarrow> byte \<Rightarrow> string" where
  "demoKey prefix b = prefix @ toHex [b]"

definition demoKey78 :: "string \<Rightarrow> byte \<Rightarrow> string" where
  "demoKey78 prefix b = prefix @ toHex (replicate 73 0 @ [b])"

text \<open>A request on the signet network, external chain.\<close>

definition demoRequest :: "real \<Rightarrow> string list \<Rightarrow> int \<Rightarrow> MultisigRequest" where
  "demoRequest k keys idx =
     \<lparr>m = k, xpubs = keys, change = External, Base.network = Some signet, strictBip48 = None,
      MultisigRequest.index = idx\<rparr>"

text \<open>Parameters of a range of three addresses from index 9, with a given script type.\<close>

definition demoParams :: "ScriptType option \<Rightarrow> DeriveParams" where
  "demoParams s =
     \<lparr>m = 1, xpubs = [demoKey ''tpub'' 3], change = External, Base.network = Some signet,
      strictBip48 = None, start = 9, DeriveParams.count = 3, account = None, scriptType = s,
      coinType = None\<rparr>"

section \<open>Lemmas about the built-ins\<close>

text \<open>
  \<open>Buffer.compare\<close> is the unsigned lexicographic order on byte lists, and sorting
  with it is sorting in that order. The sorted array therefore depends on the multiset
  of its elements only.
\<close>

lemma Buffer_compare_le: "Buffer_compare a b \<le> 0 \<longleftrightarrow> a \<le> b"
  by (induction a b rule: Buffer_compare.induct) auto

lemma insert_sorted_Buffer: "insert_sorted Buffer_compare x ys = insort x ys"
  by (induction ys) (simp_all add: Buffer_compare_le)

lemma Array_sort_Buffer: "Array_sort Buffer_compare xs = sort xs"
  by (induction xs) (simp_all add: Array_sort_def insert_sorted_Buffer)

lemma Array_sort_mset:
  "mset xs = mset ys \<Longrightarrow> Array_sort Buffer_compare xs = Array_sort Buffer_compare ys"
  unfolding Array_sort_Buffer
  by (metis properties_for_sort sorted_sort mset_sort)

lemma map_throw_total:
  "\<forall>x\<in>set xs. \<exists>y. f x = Inr y \<Longrightarrow> map_throw f xs = Inr (map (\<lambda>x. projr (f x)) xs)"
  by (induction xs) (fastforce split: sum.splits)+

lemma map_throw_InrD:
  "map_throw f xs = Inr ys \<Longrightarrow>
   (\<forall>x\<in>set xs. \<exists>y. f x = Inr y) \<and> ys = map (\<lambda>x. projr (f x)) xs"
  by (induction xs arbitrary: ys) (auto split: sum.splits)

lemma map_throw_InlD: "map_throw f xs = Inl e \<Longrightarrow> \<exists>x\<in>set xs. f x = Inl e"
  by (induction xs) (auto split: sum.splits)

section \<open>The stages of the builder\<close>

lemma build_threshold:
  "\<not> Number_isInteger (m req) \<or> m req < 1 \<or> m req > real (length (xpubs req)) \<Longrightarrow>
   buildBip48P2wshAddress E req = Inl Invalid_threshold_m"
  by (simp add: buildBip48P2wshAddress_def)

lemma build_too_many:
  "\<not> (\<not> Number_isInteger (m req) \<or> m req < 1 \<or> m req > real (length (xpubs req))) \<Longrightarrow>
   length (xpubs req) > 15 \<Longrightarrow>
   buildBip48P2wshAddress E req = Inl Too_many_cosigners"
  by (simp add: buildBip48P2wshAddress_def)

text \<open>Once both validations have passed, the builder is the composition of its stages.\<close>

lemma build_stages:
  assumes "Number_isInteger (m req)" "1 \<le> m req" "m req \<le> real (length (xpubs req))"
    and "length (xpubs req) \<le> 15"
  shows "buildBip48P2wshAddress E req =
     (case map_throw (normalizeToNeutralPub E) (xpubs req) of
        Inl e \<Rightarrow> Inl e
      | Inr ns \<Rightarrow>
          if ns = [] then Inl TypeError_undefined
          else if \<exists>n\<in>set ns. NeutralPub.network n \<noteq> NeutralPub.network (hd ns)
          then Inl Mixed_networks_in_keys
          else
            (case map_throw (childPubkey E (resolveNetwork E (Base.network req) (NeutralPub.network (hd ns)))
                     (change req) (MultisigRequest.index req)) ns of
               Inl e \<Rightarrow> Inl e
             | Inr cs \<Rightarrow>
                 (case payments_p2ms E (m req) (Array_sort Buffer_compare cs)
                         (resolveNetwork E (Base.network req) (NeutralPub.network (hd ns))) of
                    None \<Rightarrow> Inl Payments_error
                  | Some p2ms \<Rightarrow>
                      finish E req ns
                        (payments_p2wsh E p2ms
                           (resolveNetwork E (Base.network req) (NeutralPub.network (hd ns)))))))"
proof -
  have 1: "\<not> (\<not> Number_isInteger (m req) \<or> m req < 1 \<or> m req > real (length (xpubs req)))"
    using assms by simp
  have 2: "\<not> length (xpubs req) > 15" using assms by simp
  note defs = buildBip48P2wshAddress_def if_not_P [OF 1] if_not_P [OF 2]
  show ?thesis
  proof (cases "map_throw (normalizeToNeutralPub E) (xpubs req)")
    case (Inl e)
    then show ?thesis unfolding defs by simp
  next
    case (Inr ns)
    show ?thesis
    proof (cases ns)
      case Nil
      then show ?thesis unfolding defs Inr by simp
    next
      case (Cons n0 rest)
      let ?net = "resolveNetwork E (Base.network req) (NeutralPub.network n0)"
      have net: "(let chosenNet = (case Base.network req of Some c \<Rightarrow> c | None \<Rightarrow> NeutralPub.network n0);
                      net = (if chosenNet = mainnet then networks_bitcoin E
                             else if chosenNet = signet then signetNetwork
                             else networks_testnet E)
                  in f net) = f ?net" for f :: "Network \<Rightarrow> error + MultisigResult"
        by (simp add: resolveNetwork_def Let_def)
      show ?thesis
      proof (cases "\<exists>n\<in>set ns. NeutralPub.network n \<noteq> NeutralPub.network (hd ns)")
        case True
        then show ?thesis unfolding defs Inr Cons by (simp add: list_ex_iff)
      next
        case False
        then have F: "\<not> list_ex (\<lambda>n. NeutralPub.network n \<noteq> NeutralPub.network n0) (n0 # rest)"
          unfolding Cons by (simp add: list_ex_iff)
        show ?thesis
          unfolding defs Inr Cons sum.case list.case Let_def [of "NeutralPub.network n0"] if_not_P [OF F] net
          using False unfolding Cons
          apply (simp only: list.sel if_False list.simps)
          apply (simp add: finish_def concretSuffix_def Let_def split: sum.split option.split)
          done
      qed
    qed
  qed
qed

lemma normalize_errors:
  "normalizeToNeutralPub E k = Inl e \<Longrightarrow>
   e = Unknown_extended_key_prefix \<or> e = Bs58check_error \<or> e = Extended_key_too_short"
  unfolding normalizeToNeutralPub_def replaceVersion_def Let_def
  by (simp split: option.splits if_splits sum.splits) 

lemma childPubkey_errors: "childPubkey E net chg idx n = Inl e \<Longrightarrow> e = Bip32_error"
  by (auto simp: childPubkey_def split: option.splits)

lemma finish_errors:
  "finish E req ns p2 = Inl e \<Longrightarrow> e = Payments_error \<or> e = Failed_to_build_P2WSH_address"
  by (auto simp: finish_def split: option.splits if_splits)

lemma build_after_normalize:
  assumes st: "Number_isInteger (m req)" "1 \<le> m req" "m req \<le> real (length (xpubs req))"
    "length (xpubs req) \<le> 15"
    and ns: "map_throw (normalizeToNeutralPub E) (xpubs req) = Inr ns"
    and same: "\<not> (\<exists>n\<in>set ns. NeutralPub.network n \<noteq> NeutralPub.network (hd ns))"
  shows "ns \<noteq> []"
    and "buildBip48P2wshAddress E req =
      (case map_throw (childPubkey E (resolveNetwork E (Base.network req) (NeutralPub.network (hd ns)))
               (change req) (MultisigRequest.index req)) ns of
         Inl e \<Rightarrow> Inl e
       | Inr cs \<Rightarrow>
           (case payments_p2ms E (m req) (Array_sort Buffer_compare cs)
                   (resolveNetwork E (Base.network req) (NeutralPub.network (hd ns))) of
              None \<Rightarrow> Inl Payments_error
            | Some p2ms \<Rightarrow>
                finish E req ns
                  (payments_p2wsh E p2ms
                     (resolveNetwork E (Base.network req) (NeutralPub.network (hd ns))))))"
proof -
  have ne: "xpubs req \<noteq> []" using st by auto
  from map_throw_InrD [OF ns] ne show nn: "ns \<noteq> []" by simp
  show "buildBip48P2wshAddress E req =
      (case map_throw (childPubkey E (resolveNetwork E (Base.network req) (NeutralPub.network (hd ns)))
               (change req) (MultisigRequest.index req)) ns of
         Inl e \<Rightarrow> Inl e
       | Inr cs \<Rightarrow>
           (case payments_p2ms E (m req) (Array_sort Buffer_compare cs)
                   (resolveNetwork E (Base.network req) (NeutralPub.network (hd ns))) of
              None \<Rightarrow> Inl Payments_error
            | Some p2ms \<Rightarrow>
                finish E req ns
                  (payments_p2wsh E p2ms
                     (resolveNetwork E (Base.network req) (NeutralPub.network (hd ns))))))"
    unfolding build_stages [OF st] ns sum.case if_not_P [OF nn] if_not_P [OF same]
    by (rule refl)
qed

lemma build_mixed:
  assumes st: "Number_isInteger (m req)" "1 \<le> m req" "m req \<le> real (length (xpubs req))"
    "length (xpubs req) \<le> 15"
    and ns: "map_throw (normalizeToNeutralPub E) (xpubs req) = Inr ns"
    and mixed: "\<exists>n\<in>set ns. NeutralPub.network n \<noteq> NeutralPub.network (hd ns)"
  shows "buildBip48P2wshAddress E req = Inl Mixed_networks_in_keys"
proof -
  have ne: "xpubs req \<noteq> []" using st by auto
  from map_throw_InrD [OF ns] ne have nn: "ns \<noteq> []" by simp
  show ?thesis
    unfolding build_stages [OF st] ns sum.case if_not_P [OF nn] if_P [OF mixed]
    by (rule refl)
qed

lemma build_normalize_error:
  assumes st: "Number_isInteger (m req)" "1 \<le> m req" "m req \<le> real (length (xpubs req))"
    "length (xpubs req) \<le> 15"
    and ns: "map_throw (normalizeToNeutralPub E) (xpubs req) = Inl e"
  shows "buildBip48P2wshAddress E req = Inl e"
  unfolding build_stages [OF st] ns sum.case by (rule refl)

lemma build_late_errors:
  assumes st: "Number_isInteger (m req)" "1 \<le> m req" "m req \<le> real (length (xpubs req))"
    "length (xpubs req) \<le> 15"
    and a: "buildBip48P2wshAddress E req = Inl e"
  shows "e \<in> {Unknown_extended_key_prefix, Bs58check_error, Extended_key_too_short,
               Mixed_networks_in_keys, Bip32_error, Payments_error, Failed_to_build_P2WSH_address}"
proof (cases "map_throw (normalizeToNeutralPub E) (xpubs req)")
  case (Inl e')
  from a have "e' = e" unfolding build_normalize_error [OF st Inl] by simp
  with normalize_errors map_throw_InlD [OF Inl] show ?thesis by fastforce
next
  case (Inr ns)
  let ?net = "resolveNetwork E (Base.network req) (NeutralPub.network (hd ns))"
  show ?thesis
  proof (cases "\<exists>n\<in>set ns. NeutralPub.network n \<noteq> NeutralPub.network (hd ns)")
    case True
    from a show ?thesis unfolding build_mixed [OF st Inr True] by simp
  next
    case same: False
    note b = build_after_normalize(2) [OF st Inr same]
    show ?thesis
    proof (cases "map_throw (childPubkey E ?net (change req) (MultisigRequest.index req)) ns")
      case (Inl e')
      from a have "e' = e" unfolding b Inl by simp
      with childPubkey_errors map_throw_InlD [OF Inl] show ?thesis by fastforce
    next
      case cs: (Inr cs)
      show ?thesis
      proof (cases "payments_p2ms E (m req) (Array_sort Buffer_compare cs) ?net")
        case None
        from a show ?thesis unfolding b cs by (simp add: None)
      next
        case (Some p2ms)
        from a have "finish E req ns (payments_p2wsh E p2ms ?net) = Inl e"
          unfolding b cs by (simp add: Some)
        from finish_errors [OF this] show ?thesis by auto
      qed
    qed
  qed
qed

lemma build_error_cases:
  assumes a: "buildBip48P2wshAddress E req = Inl e"
  shows "e \<noteq> TypeError_undefined"
    and "e = Invalid_threshold_m \<longleftrightarrow>
           \<not> Number_isInteger (m req) \<or> m req < 1 \<or> m req > real (length (xpubs req))"
    and "e = Too_many_cosigners \<longleftrightarrow>
           \<not> (\<not> Number_isInteger (m req) \<or> m req < 1 \<or> m req > real (length (xpubs req)))
           \<and> length (xpubs req) > 15"
proof -
  consider (thr) "\<not> Number_isInteger (m req) \<or> m req < 1 \<or> m req > real (length (xpubs req))"
    | (many) "\<not> (\<not> Number_isInteger (m req) \<or> m req < 1 \<or> m req > real (length (xpubs req)))"
        "length (xpubs req) > 15"
    | (late) "Number_isInteger (m req)" "1 \<le> m req" "m req \<le> real (length (xpubs req))"
        "length (xpubs req) \<le> 15"
    by force
  then have "e \<noteq> TypeError_undefined
     \<and> (e = Invalid_threshold_m \<longleftrightarrow>
           \<not> Number_isInteger (m req) \<or> m req < 1 \<or> m req > real (length (xpubs req)))
     \<and> (e = Too_many_cosigners \<longleftrightarrow>
           \<not> (\<not> Number_isInteger (m req) \<or> m req < 1 \<or> m req > real (length (xpubs req)))
           \<and> length (xpubs req) > 15)"
  proof cases
    case thr
    from a build_threshold [OF thr, of E] have "e = Invalid_threshold_m" by simp
    with thr show ?thesis by simp
  next
    case many
    from a build_too_many [OF many, of E] have "e = Too_many_cosigners" by simp
    with many show ?thesis by simp
  next
    case late
    from build_late_errors [OF late a] late show ?thesis by auto
  qed
  then show "e \<noteq> TypeError_undefined"
    and "e = Invalid_threshold_m \<longleftrightarrow>
           \<not> Number_isInteger (m req) \<or> m req < 1 \<or> m req > real (length (xpubs req))"
    and "e = Too_many_cosigners \<longleftrightarrow>
           \<not> (\<not> Number_isInteger (m req) \<or> m req < 1 \<or> m req > real (length (xpubs req)))
           \<and> length (xpubs req) > 15"
    by blast+
qed

text \<open>What a successful call went through, and the converse.\<close>

lemma build_InrE:
  assumes ok: "buildBip48P2wshAddress E req = Inr r"
  obtains ns cs p2ms where
    "Number_isInteger (m req)" "1 \<le> m req" "m req \<le> real (length (xpubs req))"
    "length (xpubs req) \<le> 15"
    "map_throw (normalizeToNeutralPub E) (xpubs req) = Inr ns" "ns \<noteq> []"
    "\<forall>n\<in>set ns. NeutralPub.network n = NeutralPub.network (hd ns)"
    "map_throw (childPubkey E (resolveNetwork E (Base.network req) (NeutralPub.network (hd ns)))
        (change req) (MultisigRequest.index req)) ns = Inr cs"
    "payments_p2ms E (m req) (Array_sort Buffer_compare cs)
        (resolveNetwork E (Base.network req) (NeutralPub.network (hd ns))) = Some p2ms"
    "finish E req ns
       (payments_p2wsh E p2ms (resolveNetwork E (Base.network req) (NeutralPub.network (hd ns)))) = Inr r"
proof -
  have thr: "\<not> (\<not> Number_isInteger (m req) \<or> m req < 1 \<or> m req > real (length (xpubs req)))"
    using ok build_threshold [of req E] by auto
  have cnt: "\<not> length (xpubs req) > 15"
    using ok build_too_many [OF thr, of E] by auto
  have st: "Number_isInteger (m req)" "1 \<le> m req" "m req \<le> real (length (xpubs req))"
    "length (xpubs req) \<le> 15"
    using thr cnt by auto
  obtain ns where ns: "map_throw (normalizeToNeutralPub E) (xpubs req) = Inr ns"
    using ok build_normalize_error [OF st, of E]
    by (cases "map_throw (normalizeToNeutralPub E) (xpubs req)") auto
  have same: "\<not> (\<exists>n\<in>set ns. NeutralPub.network n \<noteq> NeutralPub.network (hd ns))"
    using ok build_mixed [OF st ns] by auto
  let ?net = "resolveNetwork E (Base.network req) (NeutralPub.network (hd ns))"
  note b = build_after_normalize [OF st ns same]
  obtain cs where cs: "map_throw (childPubkey E ?net (change req) (MultisigRequest.index req)) ns = Inr cs"
    using ok unfolding b(2)
    by (cases "map_throw (childPubkey E ?net (change req) (MultisigRequest.index req)) ns") auto
  obtain p2ms where p2ms: "payments_p2ms E (m req) (Array_sort Buffer_compare cs) ?net = Some p2ms"
    using ok unfolding b(2) cs
    by (cases "payments_p2ms E (m req) (Array_sort Buffer_compare cs) ?net") auto
  have fin: "finish E req ns (payments_p2wsh E p2ms ?net) = Inr r"
    using ok unfolding b(2) cs by (simp add: p2ms)
  from same have same': "\<forall>n\<in>set ns. NeutralPub.network n = NeutralPub.network (hd ns)" by blast
  show thesis using that [OF st ns b(1) same' cs p2ms fin] .
qed

lemma build_InrI:
  assumes st: "Number_isInteger (m req)" "1 \<le> m req" "m req \<le> real (length (xpubs req))"
    "length (xpubs req) \<le> 15"
    and ns: "map_throw (normalizeToNeutralPub E) (xpubs req) = Inr ns"
    and same: "\<forall>n\<in>set ns. NeutralPub.network n = NeutralPub.network (hd ns)"
    and cs: "map_throw (childPubkey E (resolveNetwork E (Base.network req) (NeutralPub.network (hd ns)))
        (change req) (MultisigRequest.index req)) ns = Inr cs"
    and p2ms: "payments_p2ms E (m req) (Array_sort Buffer_compare cs)
        (resolveNetwork E (Base.network req) (NeutralPub.network (hd ns))) = Some p2ms"
  shows "buildBip48P2wshAddress E req =
     finish E req ns
       (payments_p2wsh E p2ms (resolveNetwork E (Base.network req) (NeutralPub.network (hd ns))))"
proof -
  from same have same': "\<not> (\<exists>n\<in>set ns. NeutralPub.network n \<noteq> NeutralPub.network (hd ns))"
    by blast
  show ?thesis
    unfolding build_after_normalize(2) [OF st ns same'] cs by (simp add: p2ms)
qed

lemma finish_InrD:
  assumes "finish E req ns p2 = Inr r"
  shows "\<exists>p2wsh addr rd out. p2 = Some p2wsh \<and> Payment.address p2wsh = Some addr \<and> addr \<noteq> []
     \<and> Payment.redeem p2wsh = Some rd \<and> Payment.output_buf rd = Some out
     \<and> r = \<lparr>address = addr, witnessScriptHex = toHex out, redeemScriptHex = None,
             descriptorTemplate = descriptor (m req) (map (\<lambda>n. neutral n @ ''/0/*'') ns),
             descriptorConcret =
               descriptor (m req)
                 (map (\<lambda>n. neutral n @ concretSuffix (change req) (MultisigRequest.index req)) ns)\<rparr>"
  using assms unfolding finish_def
  by (simp split: option.splits if_splits add: Option.bind_eq_Some_conv)

lemma finish_frame:
  assumes "finish E req ns p2 = Inr r"
  shows "\<exists>r'. finish E req' ns' p2 = Inr r' \<and> address r' = address r
           \<and> witnessScriptHex r' = witnessScriptHex r \<and> redeemScriptHex r' = redeemScriptHex r"
proof -
  from finish_InrD [OF assms] obtain p2wsh addr rd out where
    f: "p2 = Some p2wsh" "Payment.address p2wsh = Some addr" "addr \<noteq> []"
       "Payment.redeem p2wsh = Some rd" "Payment.output_buf rd = Some out"
    and r: "address r = addr" "witnessScriptHex r = toHex out" "redeemScriptHex r = None"
    by auto
  show ?thesis unfolding finish_def using f r by simp
qed

lemma join_comma:
  "xs \<noteq> [] \<Longrightarrow> sep @ join sep xs = concat (map (\<lambda>x. sep @ x) xs)"
  by (induction sep xs rule: join.induct) simp_all

lemma descriptor_spec:
  assumes "ns \<noteq> []"
  shows "descriptor k (map (\<lambda>n. neutral n @ suffix) ns) = spec_descriptor \<lfloor>k\<rfloor> (map neutral ns) suffix"
proof -
  have "map (\<lambda>n. neutral n @ suffix) ns \<noteq> []" using assms by simp
  from join_comma [OF this, of "'',''"]
  show ?thesis by (simp add: descriptor_def spec_descriptor_def comp_def)
qed

section \<open>Threshold and cosigner count\<close>

text \<open>
  C10. With an empty list of cosigners the builder throws \<open>Invalid threshold m\<close>
  whatever the threshold is, so the read of \<open>normalized[0].network\<close> is not reached
  with an empty array; for no request at all is the exception of that read the
  outcome.
\<close>

theorem empty_cosigners_invalid_threshold:
  "(xpubs req = [] \<longrightarrow> buildBip48P2wshAddress E req = Inl Invalid_threshold_m)
   \<and> buildBip48P2wshAddress E req \<noteq> Inl TypeError_undefined"
proof
  show "xpubs req = [] \<longrightarrow> buildBip48P2wshAddress E req = Inl Invalid_threshold_m"
  proof
    assume e: "xpubs req = []"
    have "m req < 1 \<or> m req > real (length (xpubs req))" using e by auto
    then show "buildBip48P2wshAddress E req = Inl Invalid_threshold_m"
      by (simp add: build_threshold)
  qed
next
  show "buildBip48P2wshAddress E req \<noteq> Inl TypeError_undefined"
    using build_error_cases(1) [of E req TypeError_undefined] by blast
qed

theorem empty_cosigners_invalid_threshold_witness:
  "buildBip48P2wshAddress demo
     \<lparr>m = 1, xpubs = [], change = External, Base.network = None, strictBip48 = None,
      MultisigRequest.index = 0\<rparr> = Inl Invalid_threshold_m"
  using empty_cosigners_invalid_threshold
    [of "\<lparr>m = 1, xpubs = [], change = External, Base.network = None, strictBip48 = None,
          MultisigRequest.index = 0\<rparr>" demo]
  by simp

text \<open>
  C6. The builder throws \<open>Invalid threshold m\<close> exactly when \<open>m\<close> is not an integer, is
  below 1 or exceeds the number of cosigners, whatever that number is, so this check
  comes first. With a threshold in range it throws \<open>Too many cosigners\<close> when there
  are more than 15 cosigners. With an integer \<open>m\<close> and \<open>1 \<le> m \<le> n \<le> 15\<close> both
  validations pass: whatever the builder does next, it throws neither of the two.
\<close>

theorem threshold_and_count_validation:
  "(\<not> Number_isInteger (m req) \<or> m req < 1 \<or> real (length (xpubs req)) < m req
      \<longrightarrow> buildBip48P2wshAddress E req = Inl Invalid_threshold_m)
   \<and> (Number_isInteger (m req) \<and> 1 \<le> m req \<and> m req \<le> real (length (xpubs req))
        \<and> 15 < length (xpubs req)
      \<longrightarrow> buildBip48P2wshAddress E req = Inl Too_many_cosigners)
   \<and> (Number_isInteger (m req) \<and> 1 \<le> m req \<and> m req \<le> real (length (xpubs req))
        \<and> length (xpubs req) \<le> 15
      \<longrightarrow> buildBip48P2wshAddress E req \<noteq> Inl Invalid_threshold_m
          \<and> buildBip48P2wshAddress E req \<noteq> Inl Too_many_cosigners)"
proof (intro conjI impI)
  assume "\<not> Number_isInteger (m req) \<or> m req < 1 \<or> real (length (xpubs req)) < m req"
  then show "buildBip48P2wshAddress E req = Inl Invalid_threshold_m"
    by (rule build_threshold)
next
  assume "Number_isInteger (m req) \<and> 1 \<le> m req \<and> m req \<le> real (length (xpubs req))
            \<and> 15 < length (xpubs req)"
  then show "buildBip48P2wshAddress E req = Inl Too_many_cosigners"
    by (intro build_too_many) auto
next
  assume ok: "Number_isInteger (m req) \<and> 1 \<le> m req \<and> m req \<le> real (length (xpubs req))
            \<and> length (xpubs req) \<le> 15"
  show "buildBip48P2wshAddress E req \<noteq> Inl Invalid_threshold_m"
    using build_error_cases(2) [of E req Invalid_threshold_m] ok by auto
  show "buildBip48P2wshAddress E req \<noteq> Inl Too_many_cosigners"
    using build_error_cases(3) [of E req Too_many_cosigners] ok by auto
qed

theorem threshold_and_count_validation_witness:
  "buildBip48P2wshAddress demo (demoRequest 0 [demoKey ''tpub'' 1, demoKey ''tpub'' 2, demoKey ''tpub'' 3] 0)
      = Inl Invalid_threshold_m
   \<and> buildBip48P2wshAddress demo (demoRequest 4 [demoKey ''tpub'' 1, demoKey ''tpub'' 2, demoKey ''tpub'' 3] 0)
      = Inl Invalid_threshold_m
   \<and> buildBip48P2wshAddress demo (demoRequest (5 / 2) [demoKey ''tpub'' 1, demoKey ''tpub'' 2, demoKey ''tpub'' 3] 0)
      = Inl Invalid_threshold_m
   \<and> buildBip48P2wshAddress demo (demoRequest 17 (replicate 16 (demoKey ''tpub'' 1)) 0)
      = Inl Invalid_threshold_m
   \<and> buildBip48P2wshAddress demo (demoRequest 2 (replicate 16 (demoKey ''tpub'' 1)) 0)
      = Inl Too_many_cosigners
   \<and> buildBip48P2wshAddress demo (demoRequest 2 [demoKey ''tpub'' 1, demoKey ''tpub'' 2, demoKey ''tpub'' 3] 0)
      \<noteq> Inl Invalid_threshold_m
   \<and> buildBip48P2wshAddress demo (demoRequest 2 [demoKey ''tpub'' 1, demoKey ''tpub'' 2, demoKey ''tpub'' 3] 0)
      \<noteq> Inl Too_many_cosigners
   \<and> \<not> isl (buildBip48P2wshAddress demo
              (demoRequest 2 [demoKey ''tpub'' 1, demoKey ''tpub'' 2, demoKey ''tpub'' 3] 0))"
proof -
  let ?three = "[demoKey ''tpub'' 1, demoKey ''tpub'' 2, demoKey ''tpub'' 3]"
  let ?many = "replicate 16 (demoKey ''tpub'' 1)"
  have "buildBip48P2wshAddress demo (demoRequest 0 ?three 0) = Inl Invalid_threshold_m"
    using threshold_and_count_validation [of "demoRequest 0 ?three 0" demo]
    by (simp add: demoRequest_def)
  moreover
  have "buildBip48P2wshAddress demo (demoRequest 4 ?three 0) = Inl Invalid_threshold_m"
    using threshold_and_count_validation [of "demoRequest 4 ?three 0" demo]
    by (simp add: demoRequest_def)
  moreover
  have "buildBip48P2wshAddress demo (demoRequest (5 / 2) ?three 0) = Inl Invalid_threshold_m"
    using threshold_and_count_validation [of "demoRequest (5 / 2) ?three 0" demo]
    by (simp add: demoRequest_def Number_isInteger_def)
  moreover
  have "buildBip48P2wshAddress demo (demoRequest 17 ?many 0) = Inl Invalid_threshold_m"
    using threshold_and_count_validation [of "demoRequest 17 ?many 0" demo]
    by (simp add: demoRequest_def)
  moreover
  have "buildBip48P2wshAddress demo (demoRequest 2 ?many 0) = Inl Too_many_cosigners"
    using threshold_and_count_validation [of "demoRequest 2 ?many 0" demo]
    by (simp add: demoRequest_def Number_isInteger_def)
  moreover
  have "buildBip48P2wshAddress demo (demoRequest 2 ?three 0) \<noteq> Inl Invalid_threshold_m"
    "buildBip48P2wshAddress demo (demoRequest 2 ?three 0) \<noteq> Inl Too_many_cosigners"
    using threshold_and_count_validation [of "demoRequest 2 ?three 0" demo]
    by (simp_all add: demoRequest_def Number_isInteger_def)
  moreover
  have "\<not> isl (buildBip48P2wshAddress demo (demoRequest 2 ?three 0))" by code_simp
  ultimately show ?thesis by (intro conjI)
qed


section \<open>Order of the cosigners\<close>

text \<open>
  C1. If the builder succeeds on a request, it succeeds on the same request with the
  cosigner keys in any other order, and returns the same \<open>address\<close> and the same
  \<open>witnessScriptHex\<close>: the child public keys are sorted with \<open>Buffer.compare\<close>, the
  unsigned lexicographic order of bytes (\<open>Array_sort_Buffer\<close>), before the script is
  built. The descriptors keep the order of the input, as the instance after the theorem shows.
\<close>

theorem cosigner_order_independence:
  assumes perm: "mset xs' = mset (xpubs req)"
    and ok: "buildBip48P2wshAddress E req = Inr r"
  shows "\<exists>r'. buildBip48P2wshAddress E (req\<lparr>xpubs := xs'\<rparr>) = Inr r'
           \<and> address r' = address r \<and> witnessScriptHex r' = witnessScriptHex r"
proof -
  from ok obtain ns cs p2ms where
    st: "Number_isInteger (m req)" "1 \<le> m req" "m req \<le> real (length (xpubs req))"
        "length (xpubs req) \<le> 15"
    and ns: "map_throw (normalizeToNeutralPub E) (xpubs req) = Inr ns" and nn: "ns \<noteq> []"
    and same: "\<forall>n\<in>set ns. NeutralPub.network n = NeutralPub.network (hd ns)"
    and cs: "map_throw (childPubkey E (resolveNetwork E (Base.network req) (NeutralPub.network (hd ns)))
        (change req) (MultisigRequest.index req)) ns = Inr cs"
    and p2ms: "payments_p2ms E (m req) (Array_sort Buffer_compare cs)
        (resolveNetwork E (Base.network req) (NeutralPub.network (hd ns))) = Some p2ms"
    and fin: "finish E req ns
       (payments_p2wsh E p2ms (resolveNetwork E (Base.network req) (NeutralPub.network (hd ns)))) = Inr r"
    by (rule build_InrE)
  let ?req = "req\<lparr>xpubs := xs'\<rparr>"
  let ?f = "\<lambda>x. projr (normalizeToNeutralPub E x)"
  let ?net = "resolveNetwork E (Base.network req) (NeutralPub.network (hd ns))"
  let ?g = "\<lambda>n. projr (childPubkey E ?net (change req) (MultisigRequest.index req) n)"
  define ns' where "ns' = map ?f xs'"
  define cs' where "cs' = map ?g ns'"
  have len: "length xs' = length (xpubs req)" using perm by (rule mset_eq_length)
  have set: "set xs' = set (xpubs req)" using perm by (rule mset_eq_setD)
  from map_throw_InrD [OF ns]
  have all: "\<forall>x\<in>set (xpubs req). \<exists>y. normalizeToNeutralPub E x = Inr y" and nsf: "ns = map ?f (xpubs req)"
    by auto
  have st': "Number_isInteger (m ?req)" "1 \<le> m ?req" "m ?req \<le> real (length (xpubs ?req))"
    "length (xpubs ?req) \<le> 15"
    using st len by simp_all
  have ns': "map_throw (normalizeToNeutralPub E) (xpubs ?req) = Inr ns'"
    unfolding ns'_def using map_throw_total [of xs' "normalizeToNeutralPub E"] all set by simp
  have msns: "mset ns' = mset ns"
    unfolding ns'_def nsf using perm by simp
  then have setns: "set ns' = set ns" by (rule mset_eq_setD)
  have nn': "ns' \<noteq> []" using msns nn by auto
  then have "hd ns' \<in> set ns'" by (rule hd_in_set)
  then have "hd ns' \<in> set ns" unfolding setns .
  with same have hd: "NeutralPub.network (hd ns') = NeutralPub.network (hd ns)" by blast
  have same': "\<forall>n\<in>set ns'. NeutralPub.network n = NeutralPub.network (hd ns')"
    using same setns hd by simp
  from map_throw_InrD [OF cs]
  have allc: "\<forall>n\<in>set ns. \<exists>y. childPubkey E ?net (change req) (MultisigRequest.index req) n = Inr y"
    and csf: "cs = map ?g ns"
    by auto
  have cs'': "map_throw (childPubkey E ?net (change req) (MultisigRequest.index req)) ns' = Inr cs'"
    unfolding cs'_def
    using map_throw_total [of ns' "childPubkey E ?net (change req) (MultisigRequest.index req)"] allc setns
    by simp
  have "mset cs' = mset cs"
    unfolding cs'_def csf using msns by simp
  then have sort: "Array_sort Buffer_compare cs' = Array_sort Buffer_compare cs"
    by (rule Array_sort_mset)
  have cs3: "map_throw (childPubkey E (resolveNetwork E (Base.network ?req) (NeutralPub.network (hd ns')))
        (change ?req) (MultisigRequest.index ?req)) ns' = Inr cs'"
    using cs'' by (simp add: hd)
  have p3: "payments_p2ms E (m ?req) (Array_sort Buffer_compare cs')
        (resolveNetwork E (Base.network ?req) (NeutralPub.network (hd ns'))) = Some p2ms"
    using p2ms by (simp add: hd sort)
  have b: "buildBip48P2wshAddress E ?req = finish E ?req ns' (payments_p2wsh E p2ms ?net)"
    using build_InrI [OF st' ns' same' cs3 p3] by (simp add: hd)
  from finish_frame [OF fin, of ?req ns'] show ?thesis unfolding b by blast
qed

theorem cosigner_order_independence_witness:
  "\<exists>r r'. buildBip48P2wshAddress demo
             (demoRequest 2 [demoKey ''tpub'' 3, demoKey ''Vpub'' 1, demoKey ''tpub'' 2] 7) = Inr r
     \<and> buildBip48P2wshAddress demo
             (demoRequest 2 [demoKey ''tpub'' 2, demoKey ''tpub'' 3, demoKey ''Vpub'' 1] 7) = Inr r'
     \<and> address r' = address r \<and> witnessScriptHex r' = witnessScriptHex r
     \<and> descriptorTemplate r' \<noteq> descriptorTemplate r"
proof -
  let ?req = "demoRequest 2 [demoKey ''tpub'' 3, demoKey ''Vpub'' 1, demoKey ''tpub'' 2] 7"
  let ?xs' = "[demoKey ''tpub'' 2, demoKey ''tpub'' 3, demoKey ''Vpub'' 1]"
  have "\<not> isl (buildBip48P2wshAddress demo ?req)" by code_simp
  then obtain r where ok: "buildBip48P2wshAddress demo ?req = Inr r"
    by (cases "buildBip48P2wshAddress demo ?req") auto
  have perm: "mset ?xs' = mset (xpubs ?req)" by (simp add: demoRequest_def)
  have upd: "?req\<lparr>xpubs := ?xs'\<rparr> = demoRequest 2 ?xs' 7" by (simp add: demoRequest_def)
  from cosigner_order_independence [OF perm ok] obtain r' where
    r': "buildBip48P2wshAddress demo (demoRequest 2 ?xs' 7) = Inr r'"
      "address r' = address r" "witnessScriptHex r' = witnessScriptHex r"
    unfolding upd by blast
  have "descriptorTemplate (projr (buildBip48P2wshAddress demo (demoRequest 2 ?xs' 7)))
      \<noteq> descriptorTemplate (projr (buildBip48P2wshAddress demo ?req))"
    by code_simp
  then have "descriptorTemplate r' \<noteq> descriptorTemplate r" unfolding ok r' by simp
  with ok r' show ?thesis by blast
qed

section \<open>Descriptors\<close>

text \<open>
  C7. On a successful call the two descriptors have the format
  \<open>wsh(sortedmulti(m,key suffix,...,key suffix))\<close> of the specification, where \<open>m\<close> is
  the threshold, the keys are the normalised account-level keys of the cosigners in
  the order of the input, and the suffix is \<open>/0/*\<close> in the template and
  \<open>/change/index\<close> in the concrete descriptor.
\<close>

theorem descriptor_format:
  assumes ok: "buildBip48P2wshAddress E req = Inr r"
  shows "\<exists>ns k. length ns = length (xpubs req)
           \<and> (\<forall>i<length ns. normalizeToNeutralPub E (xpubs req ! i) = Inr (ns ! i))
           \<and> m req = of_int k
           \<and> descriptorTemplate r = spec_descriptor k (map neutral ns) ''/0/*''
           \<and> descriptorConcret r =
               spec_descriptor k (map neutral ns)
                 (''/'' @ Number_toString (ChangeChain_value (change req)) @ ''/''
                    @ Number_toString (MultisigRequest.index req))"
proof -
  from ok obtain ns cs p2ms where
    int: "Number_isInteger (m req)"
    and ns: "map_throw (normalizeToNeutralPub E) (xpubs req) = Inr ns" and nn: "ns \<noteq> []"
    and fin: "finish E req ns
       (payments_p2wsh E p2ms (resolveNetwork E (Base.network req) (NeutralPub.network (hd ns)))) = Inr r"
    by (rule build_InrE)
  from map_throw_InrD [OF ns]
  have all: "\<forall>x\<in>set (xpubs req). \<exists>y. normalizeToNeutralPub E x = Inr y"
    and nsf: "ns = map (\<lambda>x. projr (normalizeToNeutralPub E x)) (xpubs req)"
    by blast+
  have len: "length ns = length (xpubs req)" unfolding nsf by simp
  have nth: "normalizeToNeutralPub E (xpubs req ! i) = Inr (ns ! i)" if "i < length ns" for i
  proof -
    from that len have "xpubs req ! i \<in> set (xpubs req)" by simp
    with all obtain y where y: "normalizeToNeutralPub E (xpubs req ! i) = Inr y" by blast
    from that len have "ns ! i = projr (normalizeToNeutralPub E (xpubs req ! i))"
      unfolding nsf by simp
    with y show ?thesis by simp
  qed
  from int have k: "m req = of_int \<lfloor>m req\<rfloor>" unfolding Number_isInteger_def by (rule sym)
  from finish_InrD [OF fin]
  have t: "descriptorTemplate r = descriptor (m req) (map (\<lambda>n. neutral n @ ''/0/*'') ns)"
    and c: "descriptorConcret r = descriptor (m req)
              (map (\<lambda>n. neutral n @ concretSuffix (change req) (MultisigRequest.index req)) ns)"
    by auto
  have "descriptorTemplate r = spec_descriptor \<lfloor>m req\<rfloor> (map neutral ns) ''/0/*''"
    unfolding t by (rule descriptor_spec [OF nn])
  moreover have "descriptorConcret r =
      spec_descriptor \<lfloor>m req\<rfloor> (map neutral ns)
        (''/'' @ Number_toString (ChangeChain_value (change req)) @ ''/''
           @ Number_toString (MultisigRequest.index req))"
    unfolding c descriptor_spec [OF nn] concretSuffix_def by (rule refl)
  ultimately show ?thesis using len nth k by blast
qed

theorem descriptor_format_witness:
  "\<exists>r. buildBip48P2wshAddress demo
         (demoRequest 2 [demoKey ''tpub'' 3, demoKey ''Vpub'' 1, demoKey ''tpub'' 2] 7) = Inr r
     \<and> descriptorTemplate r = ''wsh(sortedmulti(2,tpub03/0/*,tpub01/0/*,tpub02/0/*))''
     \<and> descriptorConcret r = ''wsh(sortedmulti(2,tpub03/0/7,tpub01/0/7,tpub02/0/7))''"
proof -
  let ?req = "demoRequest 2 [demoKey ''tpub'' 3, demoKey ''Vpub'' 1, demoKey ''tpub'' 2] 7"
  have "\<not> isl (buildBip48P2wshAddress demo ?req)" by code_simp
  then obtain r where ok: "buildBip48P2wshAddress demo ?req = Inr r"
    by (cases "buildBip48P2wshAddress demo ?req") auto
  from descriptor_format [OF ok] obtain ns :: "NeutralPub list" and k where
    "descriptorTemplate r = spec_descriptor k (map neutral ns) ''/0/*''" by blast
  have "descriptorTemplate (projr (buildBip48P2wshAddress demo ?req))
          = ''wsh(sortedmulti(2,tpub03/0/*,tpub01/0/*,tpub02/0/*))''
      \<and> descriptorConcret (projr (buildBip48P2wshAddress demo ?req))
          = ''wsh(sortedmulti(2,tpub03/0/7,tpub01/0/7,tpub02/0/7))''"
    by code_simp
  with ok show ?thesis by simp
qed


section \<open>Key normalisation\<close>

lemma writeUInt32BE_0:
  assumes "4 \<le> length d"
  shows "length (writeUInt32BE d v 0) = length d"
    and "drop 4 (writeUInt32BE d v 0) = drop 4 d"
    and "take 4 (writeUInt32BE d v 0) =
           [ucast (drop_bit 24 v), ucast (drop_bit 16 v), ucast (drop_bit 8 v), ucast v]"
proof -
  show "length (writeUInt32BE d v 0) = length d" by (simp add: writeUInt32BE_def)
  show "drop 4 (writeUInt32BE d v 0) = drop 4 d" by (simp add: writeUInt32BE_def drop_update_cancel)
  obtain a b c e rest where d: "d = a # b # c # e # rest"
    using assms by (cases d; cases "tl d"; cases "tl (tl d)"; cases "tl (tl (tl d))") auto
  show "take 4 (writeUInt32BE d v 0) =
           [ucast (drop_bit 24 v), ucast (drop_bit 16 v), ucast (drop_bit 8 v), ucast v]"
    unfolding d by (simp add: writeUInt32BE_def)
qed

lemma normalize_cases:
  "normalizeToNeutralPub E k =
     (if take 4 k = ''xpub'' then Inr \<lparr>neutral = k, network = mainnet\<rparr>
      else if take 4 k = ''tpub'' then Inr \<lparr>neutral = k, network = testnet\<rparr>
      else if take 4 k \<in> {''ypub'', ''zpub'', ''Ypub'', ''Zpub''} then rewritten E k 0x0488b21e mainnet
      else if take 4 k \<in> {''upub'', ''vpub'', ''Upub'', ''Vpub''} then rewritten E k 0x043587cf testnet
      else Inl Unknown_extended_key_prefix)"
  unfolding normalizeToNeutralPub_def detectPrefix_def isMainnetPrefix_def isTestnetPrefix_def
    prefixNetwork_def VERSIONS_mainnet_def VERSIONS_testnet_def rewritten_def Let_def
  by simp

lemma detectPrefix_cases:
  "detectPrefix k \<noteq> None \<longleftrightarrow>
     take 4 k \<in> {''xpub'', ''ypub'', ''zpub'', ''Ypub'', ''Zpub'', ''tpub'', ''upub'', ''vpub'', ''Upub'', ''Vpub''}"
  unfolding detectPrefix_def isMainnetPrefix_def isTestnetPrefix_def
    VERSIONS_mainnet_def VERSIONS_testnet_def Let_def
  by auto


lemma rewritten_valid:
  assumes d: "bs58check_decode E k = Some d" and len: "4 \<le> length d"
  shows "rewritten E k v net = Inr \<lparr>neutral = bs58check_encode E (writeUInt32BE d v 0), network = net\<rparr>"
  using len by (simp add: rewritten_def replaceVersion_def d)

lemma fields_of_drop4:
  assumes "drop 4 d' = drop 4 d"
  shows "key_depth d' = key_depth d" "key_parentFingerprint d' = key_parentFingerprint d"
    "key_childNumber d' = key_childNumber d" "key_chainCode d' = key_chainCode d"
    "key_publicKey d' = key_publicKey d"
proof -
  have "drop (4 + n) d' = drop (4 + n) d" for n
    using assms by (metis add.commute drop_drop)
  from this [of 1] this [of 5] this [of 9] this [of 41] assms
  show "key_depth d' = key_depth d" "key_parentFingerprint d' = key_parentFingerprint d"
    "key_childNumber d' = key_childNumber d" "key_chainCode d' = key_chainCode d"
    "key_publicKey d' = key_publicKey d"
    by (simp_all add: key_depth_def key_parentFingerprint_def key_childNumber_def
          key_chainCode_def key_publicKey_def)
qed

text \<open>The demo codec decodes what it encodes and writes the neutral prefixes.\<close>

lemma fromHexDigit_digitChar: "n < 16 \<Longrightarrow> fromHexDigit (digitChar n) = Some n"
proof -
  have "list_all (\<lambda>n. fromHexDigit (digitChar n) = Some n) [0..<16]" by code_simp
  moreover assume "n < 16"
  ultimately show ?thesis by (simp add: list_all_iff)
qed

lemma fromHex_toHex: "fromHex (toHex d) = Some d"
proof (induction d)
  case Nil
  show ?case by (simp add: toHex_def)
next
  case (Cons b bs)
  have lt: "unat b < 256" using unsigned_less [of b, where 'a = nat] by simp
  then have hi: "unat b div 16 < 16" and lo: "unat b mod 16 < 16" by auto
  have "word_of_nat (16 * (unat b div 16) + unat b mod 16) = b" by simp
  with Cons show ?case
    using fromHexDigit_digitChar [OF hi] fromHexDigit_digitChar [OF lo]
    by (simp add: toHex_def)
qed

lemma demo_table:
  assumes "map_of (map (\<lambda>(name, v). (be32 v, name)) (VERSIONS_mainnet @ VERSIONS_testnet)) key = Some name"
  shows "\<exists>v. map_of (VERSIONS_mainnet @ VERSIONS_testnet) name = Some v \<and> be32 v = key
           \<and> length name = 4 \<and> take 1 name \<noteq> ''#''"
proof -
  from map_of_SomeD [OF assms] obtain v where
    "(name, v) \<in> set (VERSIONS_mainnet @ VERSIONS_testnet)" and k: "be32 v = key"
    by auto
  then have "map_of (VERSIONS_mainnet @ VERSIONS_testnet) name = Some v
      \<and> length name = 4 \<and> take 1 name \<noteq> ''#''"
    by (auto simp: VERSIONS_mainnet_def VERSIONS_testnet_def)
  with k show ?thesis by blast
qed

lemma be32_length: "length (be32 v) = 4"
  by (simp add: be32_def writeUInt32BE_def)

lemma demo_roundtrip: "demo_decode (demo_encode b) = Some b"
proof (cases "map_of (map (\<lambda>(name, v). (be32 v, name)) (VERSIONS_mainnet @ VERSIONS_testnet)) (take 4 b)")
  case None
  show ?thesis
    unfolding demo_encode_def None option.case
    by (simp add: demo_decode_def fromHex_toHex)
next
  case (Some name)
  from demo_table [OF Some] obtain v where
    v: "map_of (VERSIONS_mainnet @ VERSIONS_testnet) name = Some v" "be32 v = take 4 b"
       "length name = 4" "take 1 name \<noteq> ''#''"
    by blast
  have "be32 v @ drop 4 b = b" unfolding v(2) by simp
  then show ?thesis
    unfolding demo_encode_def Some option.case
    using v by (simp add: demo_decode_def fromHex_toHex)
qed

lemma demo_prefix:
  "take 4 d = [0x04, 0x88, 0xb2, 0x1e] \<Longrightarrow> take 4 (demo_encode d) = ''xpub''"
  "take 4 d = [0x04, 0x35, 0x87, 0xcf] \<Longrightarrow> take 4 (demo_encode d) = ''tpub''"
  by (simp_all add: demo_encode_def VERSIONS_mainnet_def VERSIONS_testnet_def be32_def
        writeUInt32BE_def)


text \<open>
  C4. Normalising a valid extended public key changes nothing of the decoded payload
  after the four version bytes: with a check-encoding whose decoder inverts its
  encoder, the normalised key decodes to a payload of the same length that agrees
  with the payload of the original from byte 4 on, hence on depth, parent
  fingerprint, child number, chain code and public key.
\<close>

theorem normalization_preserves_fields:
  assumes roundtrip: "\<And>b. bs58check_decode E (bs58check_encode E b) = Some b"
    and valid: "validExtendedPublicKey E k"
  shows "\<exists>r d d'. normalizeToNeutralPub E k = Inr r
           \<and> bs58check_decode E k = Some d \<and> bs58check_decode E (neutral r) = Some d'
           \<and> length d' = length d \<and> drop 4 d' = drop 4 d
           \<and> key_depth d' = key_depth d
           \<and> key_parentFingerprint d' = key_parentFingerprint d
           \<and> key_childNumber d' = key_childNumber d
           \<and> key_chainCode d' = key_chainCode d
           \<and> key_publicKey d' = key_publicKey d"
proof -
  from valid obtain d where d: "bs58check_decode E k = Some d" and len: "length d = 78"
    and pre: "detectPrefix k \<noteq> None"
    by (auto simp: validExtendedPublicKey_def split: option.splits)
  have len4: "4 \<le> length d" using len by simp
  from pre have cases: "take 4 k \<in> {''xpub'', ''ypub'', ''zpub'', ''Ypub'', ''Zpub'',
                                    ''tpub'', ''upub'', ''vpub'', ''Upub'', ''Vpub''}"
    by (simp only: detectPrefix_cases)
  have "\<exists>r d'. normalizeToNeutralPub E k = Inr r \<and> bs58check_decode E (neutral r) = Some d'
          \<and> length d' = length d \<and> drop 4 d' = drop 4 d"
  proof (cases "take 4 k = ''xpub'' \<or> take 4 k = ''tpub''")
    case True
    then have "\<exists>net. normalizeToNeutralPub E k = Inr \<lparr>neutral = k, network = net\<rparr>"
      by (auto simp: normalize_cases)
    then show ?thesis using d by auto
  next
    case False
    then obtain v net where
      n: "normalizeToNeutralPub E k = rewritten E k v net"
      using cases by (auto simp: normalize_cases)
    let ?d' = "writeUInt32BE d v 0"
    have "normalizeToNeutralPub E k = Inr \<lparr>neutral = bs58check_encode E ?d', network = net\<rparr>"
      unfolding n by (rule rewritten_valid [OF d len4])
    moreover have "bs58check_decode E (bs58check_encode E ?d') = Some ?d'" by (rule roundtrip)
    ultimately show ?thesis using writeUInt32BE_0(1,2) [OF len4, of v] by auto
  qed
  then obtain r d' where
    r: "normalizeToNeutralPub E k = Inr r" "bs58check_decode E (neutral r) = Some d'"
       "length d' = length d" "drop 4 d' = drop 4 d"
    by blast
  from fields_of_drop4 [OF r(4)] r d show ?thesis by blast
qed

theorem normalization_preserves_fields_witness:
  "validExtendedPublicKey demo (demoKey78 ''Zpub'' 5)
   \<and> (\<exists>r d d'. normalizeToNeutralPub demo (demoKey78 ''Zpub'' 5) = Inr r
         \<and> neutral r = demoKey78 ''xpub'' 5
         \<and> bs58check_decode demo (demoKey78 ''Zpub'' 5) = Some d
         \<and> bs58check_decode demo (neutral r) = Some d'
         \<and> drop 4 d' = drop 4 d \<and> key_publicKey d' = key_publicKey d)"
proof -
  have rt: "bs58check_decode demo (bs58check_encode demo b) = Some b" for b
    by (simp add: demo_def demo_roundtrip)
  have valid: "validExtendedPublicKey demo (demoKey78 ''Zpub'' 5)" by code_simp
  have n: "neutral (projr (normalizeToNeutralPub demo (demoKey78 ''Zpub'' 5))) = demoKey78 ''xpub'' 5"
    by code_simp
  from normalization_preserves_fields [of demo, OF rt valid] obtain r d d' where
    f: "normalizeToNeutralPub demo (demoKey78 ''Zpub'' 5) = Inr r"
       "bs58check_decode demo (demoKey78 ''Zpub'' 5) = Some d"
       "bs58check_decode demo (neutral r) = Some d'"
       "drop 4 d' = drop 4 d" "key_publicKey d' = key_publicKey d"
    by blast
  have nr: "neutral r = demoKey78 ''xpub'' 5" using n unfolding f(1) by simp
  show ?thesis
    by (intro conjI exI) (rule valid f nr)+
qed


text \<open>
  C5. Normalisation is idempotent on valid extended public keys: the neutral key it
  returns normalises to itself, with the same network, and a key whose text already
  starts with \<open>xpub\<close> or \<open>tpub\<close> is returned as it is. The one property of the
  check-encoding used is the one the version constants were chosen for: a 78-byte
  payload with the version \<open>0x0488b21e\<close> encodes to a text starting with \<open>xpub\<close>, and
  with \<open>0x043587cf\<close> to one starting with \<open>tpub\<close>.
\<close>

theorem normalization_idempotent:
  assumes xpub: "\<And>d. length d = 78 \<Longrightarrow> take 4 d = [0x04, 0x88, 0xb2, 0x1e]
                    \<Longrightarrow> take 4 (bs58check_encode E d) = ''xpub''"
    and tpub: "\<And>d. length d = 78 \<Longrightarrow> take 4 d = [0x04, 0x35, 0x87, 0xcf]
                    \<Longrightarrow> take 4 (bs58check_encode E d) = ''tpub''"
    and valid: "validExtendedPublicKey E k"
  shows "\<exists>r. normalizeToNeutralPub E k = Inr r \<and> normalizeToNeutralPub E (neutral r) = Inr r
           \<and> (take 4 k = ''xpub'' \<or> take 4 k = ''tpub'' \<longrightarrow> neutral r = k)"
proof -
  from valid obtain d where d: "bs58check_decode E k = Some d" and len: "length d = 78"
    and pre: "detectPrefix k \<noteq> None"
    by (auto simp: validExtendedPublicKey_def split: option.splits)
  have len4: "4 \<le> length d" using len by simp
  from pre have cases: "take 4 k \<in> {''xpub'', ''ypub'', ''zpub'', ''Ypub'', ''Zpub'',
                                    ''tpub'', ''upub'', ''vpub'', ''Upub'', ''Vpub''}"
    by (simp only: detectPrefix_cases)
  consider (x) "take 4 k = ''xpub''" | (t) "take 4 k = ''tpub''"
    | (m) "take 4 k \<in> {''ypub'', ''zpub'', ''Ypub'', ''Zpub''}"
    | (n) "take 4 k \<in> {''upub'', ''vpub'', ''Upub'', ''Vpub''}"
    using cases by auto
  then show ?thesis
  proof cases
    case x
    then show ?thesis by (simp add: normalize_cases)
  next
    case t
    then show ?thesis by (simp add: normalize_cases)
  next
    case m
    let ?d' = "writeUInt32BE d 0x0488b21e 0"
    let ?s = "bs58check_encode E ?d'"
    from m have n: "normalizeToNeutralPub E k = rewritten E k 0x0488b21e mainnet"
      by (auto simp: normalize_cases)
    have r: "normalizeToNeutralPub E k = Inr \<lparr>neutral = ?s, network = mainnet\<rparr>"
      unfolding n by (rule rewritten_valid [OF d len4])
    have "take 4 ?d' = [0x04, 0x88, 0xb2, 0x1e]"
      unfolding writeUInt32BE_0(3) [OF len4] by simp
    with xpub [of ?d'] writeUInt32BE_0(1) [OF len4, of "0x0488b21e"] len
    have "take 4 ?s = ''xpub''" by simp
    then have "normalizeToNeutralPub E ?s = Inr \<lparr>neutral = ?s, network = mainnet\<rparr>"
      by (simp add: normalize_cases)
    with r m show ?thesis by auto
  next
    case n
    let ?d' = "writeUInt32BE d 0x043587cf 0"
    let ?s = "bs58check_encode E ?d'"
    from n have n': "normalizeToNeutralPub E k = rewritten E k 0x043587cf testnet"
      by (auto simp: normalize_cases)
    have r: "normalizeToNeutralPub E k = Inr \<lparr>neutral = ?s, network = testnet\<rparr>"
      unfolding n' by (rule rewritten_valid [OF d len4])
    have "take 4 ?d' = [0x04, 0x35, 0x87, 0xcf]"
      unfolding writeUInt32BE_0(3) [OF len4] by simp
    with tpub [of ?d'] writeUInt32BE_0(1) [OF len4, of "0x043587cf"] len
    have "take 4 ?s = ''tpub''" by simp
    then have "normalizeToNeutralPub E ?s = Inr \<lparr>neutral = ?s, network = testnet\<rparr>"
      by (simp add: normalize_cases)
    with r n show ?thesis by auto
  qed
qed

theorem normalization_idempotent_witness:
  "validExtendedPublicKey demo (demoKey78 ''Vpub'' 9)
   \<and> (\<exists>r. normalizeToNeutralPub demo (demoKey78 ''Vpub'' 9) = Inr r
         \<and> neutral r = demoKey78 ''tpub'' 9
         \<and> normalizeToNeutralPub demo (neutral r) = Inr r)"
proof -
  have x: "take 4 (bs58check_encode demo d) = ''xpub''"
    if "length d = 78" "take 4 d = [0x04, 0x88, 0xb2, 0x1e]" for d
    using that by (simp add: demo_def demo_prefix)
  have t: "take 4 (bs58check_encode demo d) = ''tpub''"
    if "length d = 78" "take 4 d = [0x04, 0x35, 0x87, 0xcf]" for d
    using that by (simp add: demo_def demo_prefix)
  have valid: "validExtendedPublicKey demo (demoKey78 ''Vpub'' 9)" by code_simp
  have n: "neutral (projr (normalizeToNeutralPub demo (demoKey78 ''Vpub'' 9))) = demoKey78 ''tpub'' 9"
    by code_simp
  from normalization_idempotent [of demo, OF x t valid] obtain r where
    f: "normalizeToNeutralPub demo (demoKey78 ''Vpub'' 9) = Inr r"
       "normalizeToNeutralPub demo (neutral r) = Inr r"
    by blast
  have nr: "neutral r = demoKey78 ''tpub'' 9" using n unfolding f(1) by simp
  show ?thesis
    by (intro conjI exI) (rule valid f nr)+
qed


section \<open>Malformed keys\<close>






section \<open>Bulk derivation\<close>

text \<open>
  The loop runs the rounds for the integers \<open>i\<close> with \<open>0 \<le> i < count\<close> in ascending
  order, that is for \<open>i = 0, ..., \<lceil>count\<rceil> - 1\<close>, and stops at the first exception.
\<close>

lemma derive_loop_eq:
  "derive_loop E params i results =
     (case map_throw (derive_one E params) [i..\<lceil>DeriveParams.count params\<rceil> - 1] of
        Inl e \<Rightarrow> Inl e
      | Inr ys \<Rightarrow> Inr (results @ ys))"
proof (induction E params i results rule: derive_loop.induct)
  case (1 E params i results)
  let ?c = "\<lceil>DeriveParams.count params\<rceil>"
  show ?case
  proof (cases "of_int i < DeriveParams.count params")
    case False
    then have "\<not> i < ?c" by (simp add: less_ceiling_iff)
    then have "[i..?c - 1] = []" by simp
    with False show ?thesis by (subst derive_loop.simps) simp
  next
    case True
    then have "i < ?c" by (simp add: less_ceiling_iff)
    then have up: "[i..?c - 1] = i # [i + 1..?c - 1]"
      by (simp add: upto_rec1)
    show ?thesis
    proof (cases "buildBip48P2wshAddress E (request params (start params + i))")
      case (Inl e)
      have "derive_loop E params i results = Inl e"
        by (subst derive_loop.simps) (simp add: True Inl Let_def)
      then show ?thesis by (simp add: up derive_one_def Inl)
    next
      case (Inr res)
      let ?x = "MultisigResult.extend res
                  \<lparr>DerivedResult.index = start params + i,
                   path = pathString E params (start params + i)\<rparr>"
      have step: "derive_loop E params i results = derive_loop E params (i + 1) (results @ [?x])"
        by (subst derive_loop.simps) (simp add: True Inr Let_def)
      have one: "derive_one E params i = Inr ?x" by (simp add: derive_one_def Inr)
      show ?thesis
        unfolding step "1.IH" [OF True refl Inr] up
        by (simp add: one split: sum.splits)
    qed
  qed
qed

lemma derive_eq:
  "deriveBip48Addresses E params =
     map_throw (derive_one E params) [0..\<lceil>DeriveParams.count params\<rceil> - 1]"
  unfolding deriveBip48Addresses_def derive_loop_eq by (simp split: sum.splits)

lemma request_eq:
  "request params idx =
     \<lparr>m = m params, xpubs = xpubs params, change = change params,
      Base.network = Base.network params, strictBip48 = strictBip48 params,
      MultisigRequest.index = idx\<rparr>"
  by (simp add: request_def Base.defs MultisigRequest.defs)



lemma map_throw_proj_cong:
  "(\<And>x. x \<in> set xs \<Longrightarrow> map_sum id f (g x) = map_sum id f (g' x)) \<Longrightarrow>
   map_sum id (map f) (map_throw g xs) = map_sum id (map f) (map_throw g' xs)"
proof (induction xs)
  case Nil
  show ?case by simp
next
  case (Cons x xs)
  have h: "map_sum id f (g x) = map_sum id f (g' x)" by (rule Cons.prems) simp
  have t: "map_sum id (map f) (map_throw g xs) = map_sum id (map f) (map_throw g' xs)"
    by (rule Cons.IH) (rule Cons.prems, simp)
  show ?case
    using h t
    by (cases "g x"; cases "g' x"; cases "map_throw g xs"; cases "map_throw g' xs") simp_all
qed






text \<open>
  C9. \<open>account\<close>, \<open>scriptType\<close> and \<open>coinType\<close> reach the path only: changing them
  changes neither whether the call succeeds, nor the error, nor any of \<open>address\<close>,
  \<open>witnessScriptHex\<close>, \<open>redeemScriptHex\<close>, \<open>descriptorTemplate\<close>, \<open>descriptorConcret\<close>
  and \<open>index\<close> of any result. With \<open>ScriptType.P2WSH_P2SH\<close> the outputs are those of
  \<open>ScriptType.P2WSH\<close>.
\<close>

theorem path_parameters_only:
  "map_sum id (map outputs)
       (deriveBip48Addresses E (params\<lparr>account := a, scriptType := s, coinType := c\<rparr>))
     = map_sum id (map outputs) (deriveBip48Addresses E params)"
proof -
  let ?p = "params\<lparr>account := a, scriptType := s, coinType := c\<rparr>"
  let ?n = "\<lceil>DeriveParams.count params\<rceil>"
  have req: "request ?p idx = request params idx" for idx by (simp add: request_eq)
  have one: "map_sum id outputs (derive_one E ?p i) = map_sum id outputs (derive_one E params i)" for i
    unfolding derive_one_def req
    by (cases "buildBip48P2wshAddress E (request params (start params + i))")
       (simp_all add: outputs_def MultisigResult.defs)
  have "map_sum id (map outputs) (map_throw (derive_one E ?p) [0..?n - 1])
      = map_sum id (map outputs) (map_throw (derive_one E params) [0..?n - 1])"
    by (rule map_throw_proj_cong) (rule one)
  then show ?thesis unfolding derive_eq by simp
qed

theorem path_parameters_only_witness:
  "\<exists>rs rs'. deriveBip48Addresses demo (demoParams (Some P2WSH)) = Inr rs
      \<and> deriveBip48Addresses demo (demoParams (Some P2WSH_P2SH)) = Inr rs'
      \<and> map outputs rs' = map outputs rs
      \<and> map path rs' \<noteq> map path rs"
proof -
  have "\<not> isl (deriveBip48Addresses demo (demoParams (Some P2WSH)))"
    "\<not> isl (deriveBip48Addresses demo (demoParams (Some P2WSH_P2SH)))"
    by code_simp+
  then obtain rs rs' where rs: "deriveBip48Addresses demo (demoParams (Some P2WSH)) = Inr rs"
    and rs': "deriveBip48Addresses demo (demoParams (Some P2WSH_P2SH)) = Inr rs'"
    by (cases "deriveBip48Addresses demo (demoParams (Some P2WSH))";
        cases "deriveBip48Addresses demo (demoParams (Some P2WSH_P2SH))") auto
  have upd: "(demoParams (Some P2WSH))\<lparr>account := None, scriptType := Some P2WSH_P2SH, coinType := None\<rparr>
      = demoParams (Some P2WSH_P2SH)"
    by (simp add: demoParams_def)
  from path_parameters_only [where E = demo and params = "demoParams (Some P2WSH)"
      and a = None and s = "Some P2WSH_P2SH" and c = None]
  have eq: "map outputs rs' = map outputs rs" unfolding upd rs rs' by simp
  have "map path (projr (deriveBip48Addresses demo (demoParams (Some P2WSH_P2SH))))
      \<noteq> map path (projr (deriveBip48Addresses demo (demoParams (Some P2WSH))))"
    by code_simp
  then have "map path rs' \<noteq> map path rs" unfolding rs rs' by simp
  with rs rs' eq show ?thesis by blast
qed


end
